theory Spec2Isabelle
  imports Main "HOL-Library.Word"
begin

unbundle bit_operations_syntax

section \<open>The compress / ulcompress programs\<close>

text \<open>
  Both source files, \<^verbatim>\<open>compress.c\<close> and \<^verbatim>\<open>ulcompress.c\<close>, hold the same functions
  \<^verbatim>\<open>get\<close>, \<open>put\<close> and \<open>main\<close> (the second file only adds comments), so one embedding
  covers both. GMP integers (\<^verbatim>\<open>mpz_t\<close>) are unbounded and are modelled by \<^typ>\<open>int\<close>;
  the bytes of the file (\<^verbatim>\<open>unsigned char\<close>) are 8-bit words; a file is the list of its
  bytes. The C \<^verbatim>\<open>long\<close> file size is a \<^typ>\<open>nat\<close>: a file whose size times eight leaves
  the range of \<^verbatim>\<open>long\<close> cannot be read into memory by \<^verbatim>\<open>get\<close> in the first place.
\<close>

type_synonym byte = "8 word"

subsection \<open>The GMP operations the program calls\<close>

text \<open>
  GMP is a library outside the repository. Each operation below follows the GMP manual
  for the arguments the program passes.
\<close>

text \<open>\<^verbatim>\<open>mpz_sizeinbase (m, 2)\<close>: the number of bits of the absolute value of \<open>m\<close>, and 1
  when \<open>m\<close> is zero.\<close>

fun bits_of_nat :: "nat \<Rightarrow> nat" where
  "bits_of_nat n = (if n < 2 then 1 else Suc (bits_of_nat (n div 2)))"

declare bits_of_nat.simps [simp del]

definition mpz_sizeinbase2 :: "int \<Rightarrow> nat" where
  "mpz_sizeinbase2 m = bits_of_nat (nat \<bar>m\<bar>)"

text \<open>\<^verbatim>\<open>mpz_import (m, count, -1, 1, 0, 0, data)\<close>: the value of \<open>count\<close> words of one byte
  each, least significant word first (order \<open>-1\<close>), no nail bits.\<close>

fun mpz_import :: "byte list \<Rightarrow> int" where
  "mpz_import [] = 0"
| "mpz_import (b # bs) = uint b + 256 * mpz_import bs"

text \<open>\<^verbatim>\<open>mpz_export (data, &count, -1, 1, 0, 0, m)\<close>: the one-byte words of the absolute
  value of \<open>m\<close>, least significant first, as many as \<open>m\<close> needs and none when \<open>m\<close> is
  zero; \<open>count\<close> receives their number.\<close>

function mpz_export :: "int \<Rightarrow> byte list" where
  "mpz_export m =
     (if m = 0 then [] else word_of_int (\<bar>m\<bar> mod 256) # mpz_export (\<bar>m\<bar> div 256))"
  by pat_completeness auto
termination
  by (relation "measure (\<lambda>m. nat \<bar>m\<bar>)") auto

declare mpz_export.simps [simp del]

subsection \<open>Size categories\<close>

text \<open>
  \<^verbatim>\<open>get\<close> (lines 173-180 of ulcompress.c) and \<^verbatim>\<open>put\<close> (lines 234-243) compute the
  first number of the files of a given size with the same three calls, on a number that
  is zero before them: \<^verbatim>\<open>mpz_setbit (n, 8*filesize)\<close>, \<^verbatim>\<open>mpz_sub_ui (n, n, 1)\<close>,
  \<^verbatim>\<open>mpz_fdiv_q (n, n, _255)\<close>. The division rounds towards minus infinity, as
  \<open>div\<close> on \<^typ>\<open>int\<close> does.
\<close>

definition start_of_size :: "nat \<Rightarrow> int" where
  "start_of_size filesize = (set_bit (8 * filesize) 0 - 1) div 255"

text \<open>
  \<^verbatim>\<open>put\<close>, lines 222-228: \<^verbatim>\<open>m = n * 255 + 1\<close>, then
  \<^verbatim>\<open>filesize = (mpz_sizeinbase (m, 2) - 1) / 8\<close>. The subtraction is on \<^verbatim>\<open>size_t\<close>
  and \<^verbatim>\<open>mpz_sizeinbase\<close> returns at least 1, so it never wraps.
\<close>

definition put_filesize :: "int \<Rightarrow> nat" where
  "put_filesize n = (mpz_sizeinbase2 (n * 255 + 1) - 1) div 8"

subsection \<open>File to number: get\<close>

text \<open>
  \<^verbatim>\<open>get\<close> on a file it could read: the start of the file's size category plus the
  contents read as a number.
\<close>

definition get :: "byte list \<Rightarrow> int" where
  "get contents =
     (let filesize = length contents;
          n = start_of_size filesize;
          m = mpz_import contents
      in n + m)"

subsection \<open>Number to file: put\<close>

text \<open>\<^verbatim>\<open>put\<close>, line 248: \<^verbatim>\<open>mpz_sub (m, n, m)\<close>, the offset inside the category.\<close>

definition put_offset :: "int \<Rightarrow> int" where
  "put_offset n = n - start_of_size (put_filesize n)"

text \<open>
  \<^verbatim>\<open>put\<close>, lines 254-260, on the global buffer \<^verbatim>\<open>contents\<close>: \<^verbatim>\<open>memset\<close> clears its
  first \<open>filesize\<close> bytes, \<^verbatim>\<open>mpz_export\<close> stores the bytes of the offset at its start,
  and \<^verbatim>\<open>fwrite\<close> is handed its first \<open>filesize\<close> bytes. The buffer is the one \<^verbatim>\<open>get\<close>
  allocated, one byte longer than the file read; \<^verbatim>\<open>put\<close> never grows it. Writing past
  its end is undefined in C: the result is \<open>None\<close> there.
\<close>

definition put_buffer :: "int \<Rightarrow> byte list \<Rightarrow> byte list option" where
  "put_buffer n buf =
     (let filesize = put_filesize n;
          m = put_offset n
      in if length buf < filesize then None
         else
           let cleared = replicate filesize 0 @ drop filesize buf;
               exported = mpz_export m
           in if length cleared < length exported then None
              else Some (exported @ drop (length exported) cleared))"

definition put_bytes :: "int \<Rightarrow> byte list \<Rightarrow> byte list option" where
  "put_bytes n buf = map_option (take (put_filesize n)) (put_buffer n buf)"

text \<open>
  The number-to-bytes conversion of \<^verbatim>\<open>put\<close> by itself, on a buffer that is long
  enough: the exported bytes of the offset, followed by the zero bytes \<^verbatim>\<open>memset\<close> left
  up to \<open>filesize\<close>, cut at \<open>filesize\<close> bytes.
\<close>

definition decode :: "int \<Rightarrow> byte list" where
  "decode n =
     (let filesize = put_filesize n;
          exported = mpz_export (put_offset n)
      in take filesize (exported @ replicate (filesize - length exported) 0))"

abbreviation encode :: "byte list \<Rightarrow> int" where
  "encode \<equiv> get"

subsection \<open>The shift: main, lines 352-363\<close>

datatype error =
    FileAccessError
  | InvalidArgument
  | EmptyFileOverCompress
  | InsufficientValue int

text \<open>
  The two guards of \<^verbatim>\<open>main\<close> and the subtraction. The message of the second guard
  prints \<open>n\<close>, the number of the file.
\<close>

definition apply_shift :: "int \<Rightarrow> int \<Rightarrow> error + int" where
  "apply_shift n compress =
     (if n = 0 \<and> compress > 0 then Inl EmptyFileOverCompress
      else if n < compress then Inl (InsufficientValue n)
      else Inr (n - compress))"

text \<open>
  The bytes \<^verbatim>\<open>fwrite\<close> receives, written without the buffer: the exported bytes followed
  by zero bytes up to \<open>N\<close>, cut at \<open>N\<close>. \<open>decode\<close> is this at the size and offset
  \<^verbatim>\<open>put\<close> computes.
\<close>

definition export_padded :: "nat \<Rightarrow> int \<Rightarrow> byte list" where
  "export_padded N m =
     take N (mpz_export m @ replicate (N - length (mpz_export m)) 0)"

subsection \<open>The operand of -C and -D: mpz_set_str with base 0\<close>

text \<open>
  \<^verbatim>\<open>main\<close> hands the operand to \<^verbatim>\<open>mpz_set_str (arg, optarg, 0)\<close>. The function is
  GMP's; what follows is its behaviour for base 0: white space is skipped before the
  number and ignored inside it, one leading minus sign is accepted, the first character
  after it must be a decimal digit, the prefixes \<open>0x\<close>, \<open>0X\<close> select base 16,
  \<open>0b\<close>, \<open>0B\<close> base 2, a leading \<open>0\<close> otherwise base 8, anything else base 10, and
  every remaining character must be a digit of that base. \<open>None\<close> is the return value
  \<open>-1\<close>. An operand is a C string and holds no NUL character.
\<close>

definition isspace :: "char \<Rightarrow> bool" where
  "isspace c = (c = CHR '' '' \<or> (9 \<le> (of_char c :: nat) \<and> (of_char c :: nat) \<le> 13))"

definition digit_value :: "char \<Rightarrow> nat" where
  "digit_value c =
     (let k = of_char c :: nat
      in if 48 \<le> k \<and> k \<le> 57 then k - 48
         else if 65 \<le> k \<and> k \<le> 90 then k - 55
         else if 97 \<le> k \<and> k \<le> 122 then k - 87
         else 255)"

fun convert_digits :: "nat \<Rightarrow> int \<Rightarrow> string \<Rightarrow> int option" where
  "convert_digits base acc [] = Some acc"
| "convert_digits base acc (c # cs) =
     (if isspace c then convert_digits base acc cs
      else if base \<le> digit_value c then None
      else convert_digits base (acc * int base + int (digit_value c)) cs)"

definition detect_base :: "string \<Rightarrow> nat \<times> string" where
  "detect_base s =
     (case s of
        [] \<Rightarrow> (10, s)
      | c # r \<Rightarrow>
          if c = CHR ''0'' then
            (case r of
               [] \<Rightarrow> (8, r)
             | d # r' \<Rightarrow>
                 if d = CHR ''x'' \<or> d = CHR ''X'' then (16, r')
                 else if d = CHR ''b'' \<or> d = CHR ''B'' then (2, r')
                 else (8, r))
          else (10, s))"

definition mpz_set_str0 :: "string \<Rightarrow> int option" where
  "mpz_set_str0 str =
     (let s1 = dropWhile isspace str;
          negative = (s1 \<noteq> [] \<and> hd s1 = CHR ''-'');
          s2 = (if negative then tl s1 else s1)
      in if s2 = [] \<or> 10 \<le> digit_value (hd s2) then None
         else
           let (base, s3) = detect_base s2;
               s4 = dropWhile (\<lambda>c. c = CHR ''0'' \<or> isspace c) s3
           in map_option (\<lambda>v. if negative then - v else v) (convert_digits base 0 s4))"

text \<open>
  The operands the GMP manual calls valid for base 0, written as a grammar and not as a
  scan: optional white space, an optional minus sign, then \<open>0x\<close> or \<open>0X\<close> and
  hexadecimal digits, \<open>0b\<close> or \<open>0B\<close> and binary digits, \<open>0\<close> and octal digits, or
  a decimal digit from 1 to 9 and decimal digits. White space among the digits does not
  count.
\<close>

definition all_digits :: "nat \<Rightarrow> string \<Rightarrow> bool" where
  "all_digits base ds = list_all (\<lambda>c. isspace c \<or> digit_value c < base) ds"

definition unsigned_literal :: "string \<Rightarrow> bool" where
  "unsigned_literal s =
     (case s of
        [] \<Rightarrow> False
      | d # ds \<Rightarrow>
          if d = CHR ''0'' then
            (case ds of
               [] \<Rightarrow> True
             | p # ps \<Rightarrow>
                 if p = CHR ''x'' \<or> p = CHR ''X'' then all_digits 16 ps
                 else if p = CHR ''b'' \<or> p = CHR ''B'' then all_digits 2 ps
                 else all_digits 8 ds)
          else d \<in> set ''123456789'' \<and> all_digits 10 ds)"

definition well_formed_operand :: "string \<Rightarrow> bool" where
  "well_formed_operand str =
     (case dropWhile isspace str of
        [] \<Rightarrow> False
      | c # r \<Rightarrow> if c = CHR ''-'' then unsigned_literal r else unsigned_literal (c # r))"

subsection \<open>The option loop of main\<close>

text \<open>
  How a run ends: \<^verbatim>\<open>exit (0)\<close> or the return from \<^verbatim>\<open>main\<close>, \<^verbatim>\<open>fail\<close> (a message
  and \<^verbatim>\<open>exit (1)\<close>), or a write past the end of the buffer, which C leaves undefined.
  \<open>InvalidArgument\<close> stands for the four messages about the command line.
\<close>

datatype exit = Exit0 | Fail error | Undefined

text \<open>What \<^verbatim>\<open>getopt (argc, argv, "vhcdC:D:")\<close> returns, with \<^verbatim>\<open>optarg\<close> for -C and -D.\<close>

datatype getopt_result =
    Opt_v | Opt_h | Opt_c | Opt_d | Opt_C string | Opt_D string | Opt_unknown

text \<open>
  One round of the \<^verbatim>\<open>switch\<close> on the cumulative shift \<^verbatim>\<open>compress\<close>. The case \<open>'D'\<close>
  sets \<open>sign\<close> and falls through to \<open>'C'\<close>. \<open>-v\<close> only turns on printing.
\<close>

fun option_case :: "int \<Rightarrow> getopt_result \<Rightarrow> exit + int" where
  "option_case compress Opt_v = Inr compress"
| "option_case compress (Opt_D optarg) =
     (case mpz_set_str0 optarg of
        None \<Rightarrow> Inl (Fail InvalidArgument)
      | Some arg \<Rightarrow> Inr (compress - arg))"
| "option_case compress (Opt_C optarg) =
     (case mpz_set_str0 optarg of
        None \<Rightarrow> Inl (Fail InvalidArgument)
      | Some arg \<Rightarrow> Inr (compress + arg))"
| "option_case compress Opt_c = Inr (compress + 1)"
| "option_case compress Opt_d = Inr (compress - 1)"
| "option_case compress Opt_h = Inl Exit0"
| "option_case compress Opt_unknown = Inl (Fail InvalidArgument)"

fun getopt_loop :: "int \<Rightarrow> getopt_result list \<Rightarrow> exit + int" where
  "getopt_loop compress [] = Inr compress"
| "getopt_loop compress (c # cs) =
     (case option_case compress c of
        Inl e \<Rightarrow> Inl e
      | Inr compress' \<Rightarrow> getopt_loop compress' cs)"

subsection \<open>A whole run on a file\<close>

text \<open>
  What the program cannot decide itself: whether the file can be opened and read,
  whether it can be opened for writing, the size of the buffer of the stream
  \<^verbatim>\<open>fopen\<close> returns, how many bytes \<^verbatim>\<open>fwrite\<close> accepts when it has to write to the
  device, and how many bytes the device stores in all.
\<close>

record env =
  can_read :: bool
  can_open_write :: bool
  stream_buffer :: nat
  fwrite_accepts :: nat
  device_room :: nat

text \<open>
  \<^verbatim>\<open>put\<close> with the file. \<^verbatim>\<open>fopen (filename, "w")\<close> comes first and empties the file,
  the conversion follows, and \<^verbatim>\<open>fwrite\<close> comes last. The stream of a file is fully
  buffered, and \<^verbatim>\<open>put\<close> neither flushes nor closes it. A payload shorter than the
  buffer is only copied there: \<^verbatim>\<open>fwrite\<close> returns \<open>filesize\<close> and the run goes on to
  \<^verbatim>\<open>return 0\<close>. A payload that does not fit makes \<^verbatim>\<open>fwrite\<close> write to the device, and
  it returns the number of bytes it accepted; fewer than \<open>filesize\<close> is the failure
  \<^verbatim>\<open>put\<close> checks for. Either way the process ends through \<^verbatim>\<open>exit\<close>, which flushes
  the stream without reporting what the device refuses. The second component is the
  content of the file after the process: the accepted bytes the device stored. After
  an overrun of the buffer nothing is known; the file is empty when it happens.
\<close>

definition put :: "env \<Rightarrow> int \<Rightarrow> byte list \<Rightarrow> byte list \<Rightarrow> exit \<times> byte list" where
  "put e n buf file =
     (if \<not> can_open_write e then (Fail FileAccessError, file)
      else
        case put_bytes n buf of
          None \<Rightarrow> (Undefined, [])
        | Some bytes \<Rightarrow>
            let filesize = put_filesize n;
                accepted = (if filesize < stream_buffer e then filesize
                            else min filesize (fwrite_accepts e));
                stored = take (device_room e) (take accepted bytes)
            in if accepted \<noteq> filesize then (Fail FileAccessError, stored)
               else (Exit0, stored))"

text \<open>
  \<^verbatim>\<open>main\<close>: the option loop, the check for exactly one file name (\<open>positional\<close> is the
  number of arguments left after the options), \<^verbatim>\<open>get\<close>, the shift and \<^verbatim>\<open>put\<close>.
  \<^verbatim>\<open>get\<close> leaves the file it read in a zeroed buffer one byte longer than the file.
\<close>

definition main :: "env \<Rightarrow> getopt_result list \<Rightarrow> nat \<Rightarrow> byte list \<Rightarrow> exit \<times> byte list" where
  "main e opts positional file =
     (case getopt_loop 0 opts of
        Inl stop \<Rightarrow> (stop, file)
      | Inr compress \<Rightarrow>
          if positional = 0 then (Fail InvalidArgument, file)
          else if 1 < positional then (Fail InvalidArgument, file)
          else if \<not> can_read e then (Fail FileAccessError, file)
          else
            let n = get file;
                buf = file @ [0]
            in case apply_shift n compress of
                 Inl err \<Rightarrow> (Fail err, file)
               | Inr n' \<Rightarrow> put e n' buf file)"

section \<open>Size categories: arithmetic\<close>

lemma dvd_255_power_256: "(255::int) dvd 256 ^ N - 1"
proof (induction N)
  case 0
  show ?case by simp
next
  case (Suc N)
  have "(256::int) ^ Suc N - 1 = 256 * (256 ^ N - 1) + 255" by simp
  with Suc show ?case by (metis dvd_add dvd_mult dvd_refl)
qed

lemma start_of_size_power: "start_of_size N = (256 ^ N - 1) div 255"
proof -
  have "(2::int) ^ (8 * N) = 256 ^ N"
    by (simp add: power_mult)
  then show ?thesis
    by (simp add: start_of_size_def)
qed

lemma start_of_size_times_255: "255 * start_of_size N = 256 ^ N - 1"
  using dvd_255_power_256 [of N] by (simp add: start_of_size_power)

lemma start_of_size_0: "start_of_size 0 = 0"
  by (simp add: start_of_size_power)

lemma start_of_size_Suc: "start_of_size (Suc N) = start_of_size N + 256 ^ N"
proof -
  have "255 * start_of_size (Suc N) = 255 * (start_of_size N + 256 ^ N)"
    by (simp add: start_of_size_times_255 distrib_left)
  then show ?thesis by simp
qed

lemma start_of_size_nonneg: "0 \<le> start_of_size N"
  by (induction N) (simp_all add: start_of_size_0 start_of_size_Suc)

lemma start_of_size_mono: "M \<le> N \<Longrightarrow> start_of_size M \<le> start_of_size N"
proof (induction N)
  case 0
  then show ?case by simp
next
  case (Suc N)
  show ?case
  proof (cases "M = Suc N")
    case True
    then show ?thesis by simp
  next
    case False
    with Suc.prems have "M \<le> N" by simp
    then have "start_of_size M \<le> start_of_size N" by (rule Suc.IH)
    also have "\<dots> \<le> start_of_size (Suc N)" by (simp add: start_of_size_Suc)
    finally show ?thesis .
  qed
qed

section \<open>Bit length and the size of the file to write\<close>


lemma bits_of_nat_bounds:
  "0 < n \<Longrightarrow> 2 ^ (bits_of_nat n - 1) \<le> n \<and> n < 2 ^ bits_of_nat n"
proof (induction n rule: bits_of_nat.induct)
  case (1 n)
  show ?case
  proof (cases "n < 2")
    case True
    with "1.prems" have "n = 1" by simp
    then show ?thesis by (simp add: bits_of_nat.simps)
  next
    case False
    then have pos: "0 < n div 2" by simp
    have b: "bits_of_nat n = Suc (bits_of_nat (n div 2))"
      using False by (subst bits_of_nat.simps) simp
    have ih: "2 ^ (bits_of_nat (n div 2) - 1) \<le> n div 2 \<and> n div 2 < 2 ^ bits_of_nat (n div 2)"
      using "1.IH" [OF False pos] .
    have bpos: "0 < bits_of_nat (n div 2)"
      by (subst bits_of_nat.simps) simp
    then obtain k where k: "bits_of_nat (n div 2) = Suc k"
      by (cases "bits_of_nat (n div 2)") simp_all
    from ih k have "2 ^ k \<le> n div 2" "n div 2 < 2 ^ Suc k" by simp_all
    then have "2 * 2 ^ k \<le> n" "n < 2 * 2 ^ Suc k" by linarith+
    then show ?thesis by (simp add: b k)
  qed
qed

lemma bits_of_nat_pos: "0 < bits_of_nat n"
  by (subst bits_of_nat.simps) simp

lemma bits_of_nat_unique:
  assumes "2 ^ k \<le> n" "n < 2 ^ Suc k"
  shows "bits_of_nat n = Suc k"
proof -
  from assms have pos: "0 < n" by (metis less_le_trans zero_less_numeral zero_less_power)
  obtain j where j: "bits_of_nat n = Suc j"
    using bits_of_nat_pos [of n] by (cases "bits_of_nat n") simp_all
  from bits_of_nat_bounds [OF pos] j have b: "2 ^ j \<le> n" "n < 2 ^ Suc j" by simp_all
  have "\<not> j < k"
  proof
    assume "j < k"
    then have "Suc j \<le> k" by simp
    then have "(2::nat) ^ Suc j \<le> 2 ^ k" by (rule power_increasing) simp
    with assms b show False by linarith
  qed
  moreover have "\<not> k < j"
  proof
    assume "k < j"
    then have "Suc k \<le> j" by simp
    then have "(2::nat) ^ Suc k \<le> 2 ^ j" by (rule power_increasing) simp
    with assms b show False by linarith
  qed
  ultimately show ?thesis using j by simp
qed


lemma put_filesize_power:
  assumes "0 \<le> V"
  shows "256 ^ put_filesize V \<le> V * 255 + 1 \<and> V * 255 + 1 < 256 ^ Suc (put_filesize V)"
proof -
  define x where "x = nat (V * 255 + 1)"
  define b where "b = bits_of_nat x"
  define N where "N = (b - 1) div 8"
  from assms have xpos: "0 < x" and xint: "int x = V * 255 + 1"
    by (simp_all add: x_def)
  have N: "put_filesize V = N"
    using assms by (simp add: put_filesize_def mpz_sizeinbase2_def N_def b_def x_def)
  from bits_of_nat_bounds [OF xpos] have lo: "2 ^ (b - 1) \<le> x" and hi: "x < 2 ^ b"
    by (simp_all add: b_def)
  have "8 * N \<le> b - 1" by (simp add: N_def)
  then have "(2::nat) ^ (8 * N) \<le> 2 ^ (b - 1)" by (rule power_increasing) simp
  with lo have "(2::nat) ^ (8 * N) \<le> x" by linarith
  then have l: "(256::nat) ^ N \<le> x" by (simp add: power_mult)
  have "b \<le> 8 * Suc N" by (simp add: N_def)
  then have "(2::nat) ^ b \<le> 2 ^ (8 * Suc N)" by (rule power_increasing) simp
  with hi have "x < (2::nat) ^ (8 * Suc N)" by linarith
  then have h: "x < (256::nat) ^ Suc N" by (simp only: power_mult) simp
  from l have "int ((256::nat) ^ N) \<le> int x" by (simp only: of_nat_le_iff)
  moreover from h have "int x < int ((256::nat) ^ Suc N)" by (simp only: of_nat_less_iff)
  ultimately show ?thesis by (simp add: N xint)
qed

lemma put_filesize_bounds:
  assumes "0 \<le> V"
  shows "start_of_size (put_filesize V) \<le> V \<and> V < start_of_size (Suc (put_filesize V))"
proof -
  from put_filesize_power [OF assms]
  have "255 * start_of_size (put_filesize V) \<le> 255 * V"
    and "255 * V < 255 * start_of_size (Suc (put_filesize V))"
    by (simp_all only: start_of_size_times_255) simp_all
  then show ?thesis by simp
qed

lemma category_unique:
  assumes "start_of_size M \<le> V" "V < start_of_size (Suc M)"
    and "start_of_size N \<le> V" "V < start_of_size (Suc N)"
  shows "M = N"
proof (rule ccontr)
  assume "M \<noteq> N"
  then consider "Suc M \<le> N" | "Suc N \<le> M" by linarith
  then show False
  proof cases
    case 1
    from start_of_size_mono [OF 1] assms show False by linarith
  next
    case 2
    from start_of_size_mono [OF 2] assms show False by linarith
  qed
qed

lemma put_filesize_eqI:
  assumes "start_of_size N \<le> V" "V < start_of_size (Suc N)"
  shows "put_filesize V = N"
proof -
  from assms(1) start_of_size_nonneg [of N] have "0 \<le> V" by linarith
  from put_filesize_bounds [OF this] assms show ?thesis
    by (blast intro: category_unique)
qed


section \<open>Bytes and numbers\<close>

lemma decode_export_padded: "decode n = export_padded (put_filesize n) (put_offset n)"
  by (simp add: decode_def export_padded_def Let_def)

lemma length_export_padded: "length (export_padded N m) = N"
  by (simp add: export_padded_def)

lemma export_padded_0: "export_padded 0 m = []"
  by (simp add: export_padded_def)

lemma export_padded_Suc:
  assumes "0 \<le> m"
  shows "export_padded (Suc N) m = word_of_int (m mod 256) # export_padded N (m div 256)"
proof (cases "m = 0")
  case True
  have "mpz_export 0 = []" by (subst mpz_export.simps) simp
  then show ?thesis using True by (simp add: export_padded_def)
next
  case False
  with assms have "mpz_export m = word_of_int (m mod 256) # mpz_export (m div 256)"
    by (subst mpz_export.simps) simp
  then show ?thesis by (simp add: export_padded_def)
qed

lemma mpz_import_bounds: "0 \<le> mpz_import bs \<and> mpz_import bs < 256 ^ length bs"
proof (induction bs)
  case Nil
  show ?case by simp
next
  case (Cons b bs)
  have "uint b < 256" using uint_bounded [of b] by simp
  moreover have "0 \<le> uint b" by simp
  ultimately show ?case using Cons by simp
qed

lemma export_padded_import: "export_padded (length bs) (mpz_import bs) = bs"
proof (induction bs)
  case Nil
  show ?case by (simp add: export_padded_0)
next
  case (Cons b bs)
  have b: "0 \<le> uint b" "uint b < 256" using uint_bounded [of b] by simp_all
  have nonneg: "0 \<le> mpz_import (b # bs)" using mpz_import_bounds [of "b # bs"] by blast
  have m: "(uint b + 256 * mpz_import bs) mod 256 = uint b"
    using b by (simp add: mod_pos_pos_trivial)
  have d: "(uint b + 256 * mpz_import bs) div 256 = mpz_import bs"
    using b by (simp add: div_pos_pos_trivial)
  have "export_padded (length (b # bs)) (mpz_import (b # bs)) =
        word_of_int (mpz_import (b # bs) mod 256) # export_padded (length bs) (mpz_import (b # bs) div 256)"
    using export_padded_Suc [OF nonneg] by simp
  also have "\<dots> = b # bs" using m d Cons by simp
  finally show ?case .
qed

lemma import_export_padded:
  "0 \<le> m \<Longrightarrow> m < 256 ^ N \<Longrightarrow> mpz_import (export_padded N m) = m"
proof (induction N arbitrary: m)
  case 0
  then show ?case by (simp add: export_padded_0)
next
  case (Suc N)
  have d: "0 \<le> m div 256" using Suc.prems by simp
  have "m div 256 < 256 ^ N" using Suc.prems by (simp add: div_less_iff_less_mult mult.commute)
  with d have ih: "mpz_import (export_padded N (m div 256)) = m div 256" by (rule Suc.IH)
  have "0 \<le> m mod 256" "m mod 256 < 256" by simp_all
  then have u: "uint (word_of_int (m mod 256) :: byte) = m mod 256"
    by (simp add: uint_word_of_int take_bit_eq_mod)
  show ?case
    using Suc.prems(1) ih u by (simp add: export_padded_Suc)
qed

lemma length_mpz_export: "0 \<le> m \<Longrightarrow> m < 256 ^ N \<Longrightarrow> length (mpz_export m) \<le> N"
proof (induction N arbitrary: m)
  case 0
  then have "m = 0" by simp
  then show ?case by (subst mpz_export.simps) simp
next
  case (Suc N)
  show ?case
  proof (cases "m = 0")
    case True
    then show ?thesis by (subst mpz_export.simps) simp
  next
    case False
    have d: "0 \<le> m div 256" using Suc.prems by simp
    have "m div 256 < 256 ^ N" using Suc.prems by (simp add: div_less_iff_less_mult mult.commute)
    with d have "length (mpz_export (m div 256)) \<le> N" by (rule Suc.IH)
    then show ?thesis using False Suc.prems(1) by (subst mpz_export.simps) simp
  qed
qed

lemma put_filesize_get: "put_filesize (get bs) = length bs"
proof (rule put_filesize_eqI)
  show "start_of_size (length bs) \<le> get bs"
    using mpz_import_bounds [of bs] by (simp add: get_def)
  show "get bs < start_of_size (Suc (length bs))"
    using mpz_import_bounds [of bs] by (simp add: get_def start_of_size_Suc)
qed

lemma put_offset_get: "put_offset (get bs) = mpz_import bs"
  by (simp add: put_offset_def put_filesize_get) (simp add: get_def)

lemma put_offset_bounds:
  assumes "0 \<le> V"
  shows "0 \<le> put_offset V \<and> put_offset V < 256 ^ put_filesize V"
  using put_filesize_bounds [OF assms] by (simp add: put_offset_def start_of_size_Suc)

lemma decode_get: "decode (get bs) = bs"
  by (simp add: decode_export_padded put_filesize_get put_offset_get export_padded_import)

lemma length_decode: "length (decode V) = put_filesize V"
  by (simp add: decode_export_padded length_export_padded)

lemma get_decode: "0 \<le> V \<Longrightarrow> get (decode V) = V"
proof -
  assume V: "0 \<le> V"
  from put_offset_bounds [OF V]
  have "mpz_import (export_padded (put_filesize V) (put_offset V)) = put_offset V"
    by (simp add: import_export_padded)
  then have "mpz_import (decode V) = put_offset V" by (simp add: decode_export_padded)
  then show ?thesis by (simp add: get_def length_decode put_offset_def)
qed

lemma put_bytes_decode:
  assumes "0 \<le> n" "put_filesize n \<le> length buf"
  shows "put_bytes n buf = Some (decode n)"
proof -
  from put_offset_bounds [OF assms(1)]
  have len: "length (mpz_export (put_offset n)) \<le> put_filesize n"
    by (simp add: length_mpz_export)
  with assms(2) show ?thesis
    by (simp add: put_bytes_def put_buffer_def decode_def Let_def)
qed

section \<open>Further facts on sizes and bytes\<close>

lemma mpz_import_sum: "mpz_import bs = (\<Sum>i<length bs. uint (bs ! i) * 256 ^ i)"
proof (induction bs)
  case Nil
  show ?case by simp
next
  case (Cons b bs)
  have "(\<Sum>i<Suc (length bs). uint ((b # bs) ! i) * 256 ^ i) =
        uint ((b # bs) ! 0) * 256 ^ 0 + (\<Sum>i<length bs. uint ((b # bs) ! Suc i) * 256 ^ Suc i)"
    by (rule sum.lessThan_Suc_shift)
  then have "(\<Sum>i<length (b # bs). uint ((b # bs) ! i) * 256 ^ i) =
        uint b + (\<Sum>i<length bs. uint (bs ! i) * 256 ^ Suc i)"
    by (simp only: length_Cons nth_Cons_0 nth_Cons_Suc power_0 mult_1_right)
  also have "\<dots> = uint b + 256 * (\<Sum>i<length bs. uint (bs ! i) * 256 ^ i)"
    by (simp add: sum_distrib_left mult.assoc mult.left_commute)
  finally show ?case using Cons by simp
qed

lemma put_filesize_mono:
  assumes "0 \<le> a" "a \<le> b"
  shows "put_filesize a \<le> put_filesize b"
proof (rule ccontr)
  assume "\<not> put_filesize a \<le> put_filesize b"
  then have "Suc (put_filesize b) \<le> put_filesize a" by simp
  from start_of_size_mono [OF this] put_filesize_bounds [of a] put_filesize_bounds [of b] assms
  show False by linarith
qed

lemma put_filesize_less_iff:
  assumes "0 \<le> a" "0 \<le> b"
  shows "put_filesize a < put_filesize b \<longleftrightarrow> a < start_of_size (put_filesize b)"
proof
  assume "put_filesize a < put_filesize b"
  then have "Suc (put_filesize a) \<le> put_filesize b" by simp
  from start_of_size_mono [OF this] put_filesize_bounds [OF assms(1)]
  show "a < start_of_size (put_filesize b)" by linarith
next
  assume lt: "a < start_of_size (put_filesize b)"
  show "put_filesize a < put_filesize b"
  proof (rule ccontr)
    assume "\<not> put_filesize a < put_filesize b"
    then have "put_filesize b \<le> put_filesize a" by simp
    from start_of_size_mono [OF this] put_filesize_bounds [OF assms(1)] lt
    show False by linarith
  qed
qed

lemma start_of_size_2: "start_of_size 2 = 257"
  by (simp add: start_of_size_def)

section \<open>The run on a file: case analysis\<close>

lemma get_nonneg: "0 \<le> get bs"
  using mpz_import_bounds [of bs] start_of_size_nonneg [of "length bs"] by (simp add: get_def)




lemma put_bytes_None: "length buf < put_filesize n \<Longrightarrow> put_bytes n buf = None"
  by (simp add: put_bytes_def put_buffer_def Let_def)

lemma put_bytes_roundtrip:
  assumes "0 \<le> V" "put_filesize V \<le> length buf"
  shows "put_bytes V buf = Some (decode V) \<and> get (decode V) = V"
  using assms by (simp add: put_bytes_decode get_decode)



lemma main_stopped:
  "getopt_loop 0 opts = Inl stop \<Longrightarrow> main e opts positional file = (stop, file)"
  by (simp add: main_def)




lemma put_bytes_get: "put_bytes (get bs) (bs @ [0]) = Some bs"
  using put_bytes_decode [of "get bs" "bs @ [0]"] by (simp add: get_nonneg put_filesize_get decode_get)

lemma get_00: "get [0x00, 0x00] = 257"
  by (simp add: get_def start_of_size_def)

lemma get_FF: "get [0xFF] = 256"
  by (simp add: get_def start_of_size_def)




lemma put_filesize_257: "put_filesize 257 = 2"
  using put_filesize_get [of "[0, 0]"] by (simp add: get_00)

lemma set_str_257: "mpz_set_str0 ''257'' = Some 257"
  by (simp add: mpz_set_str0_def detect_base_def isspace_def digit_value_def)


lemma get_Nil: "get [] = 0"
  by (simp add: get_def start_of_size_0)

lemma put_bytes_257_short: "put_bytes 257 ([] @ [0]) = None"
  by (rule put_bytes_None) (simp add: put_filesize_257)

lemma decode_257: "decode 257 = [0, 0]"
  using decode_get [of "[0, 0]"] by (simp add: get_00)

lemma decode_256: "decode 256 = [0xFF]"
  using decode_get [of "[0xFF]"] by (simp add: get_FF)

lemma main_overrun:
  "main \<lparr>can_read = True, can_open_write = True, stream_buffer = 4096,
          fwrite_accepts = 4096, device_room = 4096\<rparr> [Opt_D ''257''] 1 []
     = (Undefined, [])"
  using put_bytes_257_short
  by (simp add: main_def put_def apply_shift_def get_Nil set_str_257)

section \<open>Operands in base 0\<close>









lemma set_str_12a: "mpz_set_str0 ''12a'' = None"
  by (simp add: mpz_set_str0_def detect_base_def isspace_def digit_value_def)

lemma set_str_08: "mpz_set_str0 ''08'' = None"
  by (simp add: mpz_set_str0_def detect_base_def isspace_def digit_value_def)




lemma not_isspace_zero: "\<not> isspace CHR ''0''"
  by (simp add: isspace_def)









lemma mpz_set_str0_minus:
  assumes "s \<noteq> []" "\<not> isspace (hd s)" "hd s \<noteq> CHR ''-''"
  shows "mpz_set_str0 (CHR ''-'' # s) = map_option uminus (mpz_set_str0 s)"
proof -
  from assms obtain c r where s: "s = c # r" by (cases s) auto
  with assms have "\<not> isspace c" "c \<noteq> CHR ''-''" by simp_all
  moreover have "\<not> isspace CHR ''-''" by (simp add: isspace_def)
  ultimately show ?thesis
    by (simp add: s mpz_set_str0_def option.map_comp comp_def option.map_ident
        split: prod.splits)
qed



lemma not_well_formed_examples:
  "\<not> well_formed_operand []" "\<not> well_formed_operand ''-''"
  "\<not> well_formed_operand ''+5''" "\<not> well_formed_operand ''08''"
  "\<not> well_formed_operand ''0x1G''" "\<not> well_formed_operand ''0b2''"
  "\<not> well_formed_operand ''12a''"
  by (simp_all add: well_formed_operand_def unsigned_literal_def all_digits_def
      isspace_def digit_value_def)

lemma well_formed_examples:
  "well_formed_operand ''010''" "well_formed_operand ''-0x1f''" "well_formed_operand ''257''"
  by (simp_all add: well_formed_operand_def unsigned_literal_def all_digits_def
      isspace_def digit_value_def)




section \<open>Properties of the specification\<close>

text \<open>
  C5. The start of a size category, computed as bit-set, subtract one, floor-divide by
  255, is 0 for size 0 and grows by \<open>256 ^ N\<close> from size \<open>N\<close> to size \<open>N + 1\<close>, so the
  starts are strictly increasing.
\<close>

theorem category_start_recurrence:
  "start_of_size 0 = 0
   \<and> start_of_size (Suc N) = start_of_size N + 256 ^ N
   \<and> start_of_size N < start_of_size (Suc N)"
  by (simp add: start_of_size_0 start_of_size_Suc)

text \<open>
  C1. Round trip from the file: for every byte sequence \<open>B\<close>, the empty one included,
  the bytes \<^verbatim>\<open>put\<close> produces from the number \<^verbatim>\<open>get\<close> computes for \<open>B\<close> are \<open>B\<close>.
\<close>
theorem roundtrip_decode_encode: "decode (encode B) = B"
  by (rule decode_get)

text \<open>
  C2. The round trip from the number, \<open>encode (decode V) = V\<close> for every \<open>V \<ge> 0\<close>,
  is what \<^verbatim>\<open>put\<close> is written for, and it holds of the conversion whenever the buffer
  holds the new size (\<open>put_bytes_roundtrip\<close>). \<^verbatim>\<open>put\<close> reuses the buffer \<^verbatim>\<open>get\<close>
  allocated for the old file and one byte more, so on the empty file with \<open>-D 257\<close>
  it clears two bytes of a buffer of one: the number 257 is never turned into the two
  bytes 0x00 0x00 whose number it is.
\<close>

theorem put_overruns_buffer:
  "main \<lparr>can_read = True, can_open_write = True, stream_buffer = 4096,
          fwrite_accepts = 4096, device_room = 4096\<rparr> [Opt_D ''257''] 1 []
     = (Undefined, [])
   \<and> get [] = 0 \<and> apply_shift 0 (- 257) = Inr 257
   \<and> put_filesize 257 = 2 \<and> put_bytes 257 ([] @ [0]) = None
   \<and> decode 257 = [0, 0] \<and> get [0, 0] = 257"
  using main_overrun put_bytes_257_short
  by (simp add: get_Nil apply_shift_def put_filesize_257 decode_257 get_00)

text \<open>
  C3. For every \<open>V \<ge> 0\<close> and every signed shift \<open>k\<close>, the shift follows three cases
  in this order: \<open>V = 0\<close> and \<open>k > 0\<close> fails with \<open>EmptyFileOverCompress\<close>; otherwise
  \<open>V < k\<close> fails with \<open>InsufficientValue\<close> reporting \<open>V\<close>; otherwise the result is
  \<open>V - k\<close>. Every negative \<open>k\<close> succeeds, also on \<open>V = 0\<close>.
\<close>
theorem apply_shift_cases:
  assumes "0 \<le> V"
  shows "(V = 0 \<and> 0 < k \<longrightarrow> apply_shift V k = Inl EmptyFileOverCompress)
       \<and> (\<not> (V = 0 \<and> 0 < k) \<and> V < k \<longrightarrow> apply_shift V k = Inl (InsufficientValue V))
       \<and> (\<not> (V = 0 \<and> 0 < k) \<and> \<not> V < k \<longrightarrow> apply_shift V k = Inr (V - k))
       \<and> (k < 0 \<longrightarrow> apply_shift V k = Inr (V - k))"
  using assms by (simp add: apply_shift_def)

theorem apply_shift_cases_witness:
  "apply_shift 0 1 = Inl EmptyFileOverCompress
   \<and> apply_shift 5 7 = Inl (InsufficientValue 5)
   \<and> apply_shift 5 3 = Inr 2
   \<and> apply_shift 0 (- 4) = Inr 4"
  using apply_shift_cases [of 0 1] apply_shift_cases [of 5 7]
    apply_shift_cases [of 5 3] apply_shift_cases [of 0 "- 4"]
  by simp

text \<open>
  C4. The file size \<^verbatim>\<open>put\<close> computes from the bit length of \<open>255 V + 1\<close> is exact at
  every boundary: the start of category \<open>N\<close> has size \<open>N\<close>, the number just below the
  start of category \<open>N \<ge> 1\<close> has size \<open>N - 1\<close>, and for \<open>V \<ge> 0\<close> the size is the one
  \<open>N\<close> with \<open>start_of_size N \<le> V < start_of_size (N + 1)\<close>.
\<close>
theorem category_lookup_exact:
  "put_filesize (start_of_size N) = N
   \<and> (1 \<le> N \<longrightarrow> put_filesize (start_of_size N - 1) = N - 1)
   \<and> (0 \<le> V \<longrightarrow>
        start_of_size (put_filesize V) \<le> V \<and> V < start_of_size (put_filesize V + 1)
        \<and> (\<forall>M. start_of_size M \<le> V \<and> V < start_of_size (M + 1) \<longrightarrow> M = put_filesize V))"
proof (intro conjI impI allI)
  show "put_filesize (start_of_size N) = N"
    by (rule put_filesize_eqI) (simp_all add: start_of_size_Suc)
next
  assume "1 \<le> N"
  then obtain K where K: "N = Suc K" by (cases N) simp_all
  have "put_filesize (start_of_size (Suc K) - 1) = K"
    by (rule put_filesize_eqI) (simp_all add: start_of_size_Suc)
  then show "put_filesize (start_of_size N - 1) = N - 1" by (simp add: K)
next
  assume "0 \<le> V"
  from put_filesize_bounds [OF this]
  show "start_of_size (put_filesize V) \<le> V" and "V < start_of_size (put_filesize V + 1)"
    by simp_all
next
  fix M
  assume "0 \<le> V" and "start_of_size M \<le> V \<and> V < start_of_size (M + 1)"
  then have "put_filesize V = M"
    by (intro put_filesize_eqI) simp_all
  then show "M = put_filesize V" by simp
qed

theorem category_lookup_exact_witness:
  "put_filesize 257 = 2 \<and> put_filesize 256 = 1
   \<and> start_of_size (put_filesize 300) \<le> 300 \<and> 300 < start_of_size (put_filesize 300 + 1)
   \<and> put_filesize 300 = 2"
proof -
  have a: "(1::nat) \<le> 2" and b: "(0::int) \<le> 300" by simp_all
  have c: "start_of_size 2 \<le> 300 \<and> 300 < start_of_size (2 + 1)"
    by (simp add: start_of_size_def)
  from category_lookup_exact [of 2 300] a b
  have d: "put_filesize 257 = 2 \<and> put_filesize 256 = 1
      \<and> start_of_size (put_filesize 300) \<le> 300 \<and> 300 < start_of_size (put_filesize 300 + 1)"
    and e: "\<forall>M. start_of_size M \<le> 300 \<and> 300 < start_of_size (M + 1) \<longrightarrow> M = put_filesize 300"
    by (simp_all add: start_of_size_2)
  from e c have "2 = put_filesize 300" by blast
  with d show ?thesis by simp
qed

text \<open>
  C6. The number of a file of \<open>N\<close> bytes is the start of category \<open>N\<close> plus the value
  of the bytes in base 256, byte 0 being the least significant digit. The empty file
  has number 0, the byte 0x00 number 1, the byte 0xFF number 256, and the two bytes
  0x00 0x00 number 257.
\<close>
theorem encode_little_endian:
  "encode bytes = start_of_size (length bytes) + (\<Sum>i<length bytes. uint (bytes ! i) * 256 ^ i)
   \<and> encode [] = 0 \<and> encode [0x00] = 1 \<and> encode [0xFF] = 256 \<and> encode [0x00, 0x00] = 257"
proof -
  have "get bytes = start_of_size (length bytes) + (\<Sum>i<length bytes. uint (bytes ! i) * 256 ^ i)"
    by (simp add: get_def mpz_import_sum)
  moreover have "get [] = 0" by (simp add: get_def start_of_size_0)
  moreover have "get [0x00] = 1" by (simp add: get_def start_of_size_def)
  moreover have "get [0xFF] = 256" by (simp add: get_def start_of_size_def)
  moreover have "get [0x00, 0x00] = 257" by (simp add: get_def start_of_size_def)
  ultimately show ?thesis by blast
qed

text \<open>
  C7. Compressing and decompressing are inverse: for \<open>V \<ge> 0\<close>, when the shift by \<open>k\<close>
  succeeds with \<open>W\<close>, the shift of \<open>W\<close> by \<open>- k\<close> succeeds with \<open>V\<close>.
\<close>
theorem apply_shift_inverse:
  assumes "0 \<le> V" "apply_shift V k = Inr W"
  shows "apply_shift W (- k) = Inr V"
  using assms by (auto simp: apply_shift_def split: if_splits)

theorem apply_shift_inverse_witness:
  "(0::int) \<le> 300 \<and> apply_shift 300 43 = Inr 257 \<and> apply_shift 257 (- 43) = Inr 300"
proof -
  have a: "(0::int) \<le> 300" by simp
  have b: "apply_shift 300 43 = Inr 257" by (simp add: apply_shift_def)
  from apply_shift_inverse [OF a b] a b show ?thesis by simp
qed

text \<open>
  C9. The claim that every successful compression makes the file strictly shorter fails:
  the numbers 2 and 1 are both files of one byte, so compressing the file of number 2
  once keeps its length.
\<close>
theorem compress_strictly_shrinks_counterexample:
  "(1::int) \<le> 2 \<and> (0::int) < 1 \<and> (1::int) \<le> 2 \<and> \<not> length (decode (2 - 1)) < length (decode 2)"
proof -
  have "put_filesize 1 = 1"
    by (rule put_filesize_eqI) (simp_all add: start_of_size_def)
  moreover have "put_filesize 2 = 1"
    by (rule put_filesize_eqI) (simp_all add: start_of_size_def)
  ultimately show ?thesis by (simp add: length_decode)
qed

text \<open>
  C9, as the code has it. For \<open>V \<ge> 1\<close> and \<open>0 < k \<le> V\<close> the file of \<open>V - k\<close> is never
  longer than the file of \<open>V\<close>, and it is strictly shorter exactly when \<open>V - k\<close> lies
  below the start of the size category of \<open>V\<close>.
\<close>

theorem compress_never_grows:
  assumes "1 \<le> V" "0 < k" "k \<le> V"
  shows "length (decode (V - k)) \<le> length (decode V)
       \<and> (length (decode (V - k)) < length (decode V)
            \<longleftrightarrow> V - k < start_of_size (length (decode V)))"
proof -
  from assms have a: "0 \<le> V - k" "V - k \<le> V" "0 \<le> V" by simp_all
  show ?thesis
    using put_filesize_mono [OF a(1,2)] put_filesize_less_iff [OF a(1,3)]
    by (simp add: length_decode)
qed

theorem compress_never_grows_witness:
  "length (decode (257 - 1)) < length (decode 257) \<and> length (decode (258 - 1)) \<le> length (decode 258)
   \<and> \<not> length (decode (258 - 1)) < length (decode 258)"
proof -
  have p: "put_filesize 257 = 2" "put_filesize 258 = 2"
    by (rule put_filesize_eqI, simp_all add: start_of_size_def)+
  from compress_never_grows [of 257 1] compress_never_grows [of 258 1] show ?thesis
    by (simp add: length_decode p start_of_size_2)
qed






end
